theory Spec2Isabelle
  imports Main "HOL-Library.Sublist"
begin

section \<open>Shared data model\<close>

text \<open>
  The raw entries returned by the remote listing client (\<^verbatim>\<open>ftp.lsr\<close>, \<^verbatim>\<open>ftp.ls\<close>).
  The scanner reads \<^verbatim>\<open>file.type\<close>, \<^verbatim>\<open>file.name\<close> and \<^verbatim>\<open>file.children\<close>;
  \<open>entry_children = None\<close> stands for a \<^verbatim>\<open>children\<close> property that is not an object
  (the listing client gives a directory it has listed an array, and nothing otherwise).
  Any type other than the three constants of \<^verbatim>\<open>FtpFile\<close> is \<open>FTP_TYPE_OTHER\<close>.
\<close>

datatype ftp_type = FTP_TYPE_FILE | FTP_TYPE_DIRECTORY | FTP_TYPE_SYM_LINK | FTP_TYPE_OTHER

datatype RemoteEntry =
  RemoteEntry (entry_name: string) (entry_type: ftp_type) (entry_time: int)
    (entry_children: "RemoteEntry list option")

text \<open>
  Modelled from the spec: the class \<^verbatim>\<open>FtpFile\<close> (\<^verbatim>\<open>objects/FtpFile\<close>) is imported by
  the source but is not part of it. The fields are those of the spec's DiscoveredFile;
  \<open>mtime\<close> is the modification time the newest-first ordering compares.
\<close>

record FtpFile =
  basePath :: string
  relativeDirectory :: string
  name :: string
  isSymLink :: bool
  mtime :: int
  targetData :: "RemoteEntry option"
  downloading :: bool

text \<open>
  Modelled from the spec: \<^verbatim>\<open>FtpFile.appendSlash\<close> (trailing-slash normalisation); a path
  that does not end in a slash, the empty path included, gets one appended.
\<close>

definition appendSlash :: "string \<Rightarrow> string" where
  "appendSlash path = (if path \<noteq> [] \<and> last path = CHR ''/'' then path else path @ ''/'')"

text \<open>
  Modelled from the spec: the constructor \<^verbatim>\<open>new FtpFile(basePath, relativePath, file)\<close>.
  A fresh file has no target data and is not downloading.
\<close>

definition newFtpFile :: "string \<Rightarrow> string \<Rightarrow> RemoteEntry \<Rightarrow> FtpFile" where
  "newFtpFile base relativePath file =
     \<lparr> basePath = base, relativeDirectory = relativePath, name = entry_name file,
       isSymLink = (entry_type file = FTP_TYPE_SYM_LINK), mtime = entry_time file,
       targetData = None, downloading = False \<rparr>"

text \<open>
  Modelled from the spec: the getter \<^verbatim>\<open>fullPath\<close> and the method \<^verbatim>\<open>equals\<close> of
  \<^verbatim>\<open>FtpFile\<close>: two files are equal iff \<^verbatim>\<open>basePath + relativeDirectory + name\<close> match.
\<close>

definition fullPath :: "FtpFile \<Rightarrow> string" where
  "fullPath f = basePath f @ relativeDirectory f @ name f"

definition equals :: "FtpFile \<Rightarrow> FtpFile \<Rightarrow> bool" where
  "equals f other = (fullPath f = fullPath other)"

section \<open>FtpScanner: flattening the nested listing\<close>

text \<open>The children of a directory entry are smaller than the entry (for termination).\<close>

lemma size_entry_children:
  "entry_children file = Some children \<Longrightarrow> size_list size children < size file"
  by (cases "file") simp

text \<open>
  \<^verbatim>\<open>processFilesJSON(data, basePath, depth, relativePath, outList)\<close>. The JavaScript pushes
  onto the shared array \<^verbatim>\<open>outList\<close> and returns it, except at depth 0, where it returns
  \<^verbatim>\<open>undefined\<close>. The model returns the pair of the returned value (\<open>None\<close> for
  \<^verbatim>\<open>undefined\<close>) and the array after the call. \<open>processFiles_loop\<close> is the
  \<^verbatim>\<open>for (let file of data)\<close> loop; the result of the recursive call is dropped there,
  only its pushes remain.
\<close>

function processFilesJSON ::
    "RemoteEntry list \<Rightarrow> string \<Rightarrow> int \<Rightarrow> string \<Rightarrow> FtpFile list
      \<Rightarrow> FtpFile list option \<times> FtpFile list"
  and processFiles_loop ::
    "RemoteEntry list \<Rightarrow> string \<Rightarrow> int \<Rightarrow> string \<Rightarrow> FtpFile list \<Rightarrow> FtpFile list"
where
  "processFilesJSON data base depth relativePath outList =
     (if depth = 0 then (None, outList)
      else (let out = processFiles_loop data base depth (appendSlash relativePath) outList
            in (Some out, out)))"
| "processFiles_loop [] base depth relativePath outList = outList"
| "processFiles_loop (file # rest) base depth relativePath outList =
     (if entry_type file = FTP_TYPE_SYM_LINK \<or> entry_type file = FTP_TYPE_FILE then
        processFiles_loop rest base depth relativePath
          (outList @ [newFtpFile base relativePath file])
      else if entry_type file = FTP_TYPE_DIRECTORY then
        (case entry_children file of
           Some children \<Rightarrow>
             processFiles_loop rest base depth relativePath
               (snd (processFilesJSON children base (depth - 1)
                      (relativePath @ entry_name file) outList))
         | None \<Rightarrow> processFiles_loop rest base depth relativePath outList)
      else processFiles_loop rest base depth relativePath outList)"
  by pat_completeness auto
termination
  by (relation "measure (\<lambda>x. case x of
         Inl (data, _) \<Rightarrow> 2 * size_list size data + 1
       | Inr (data, _) \<Rightarrow> 2 * size_list size data)")
     (auto dest: size_entry_children)

text \<open>
  The depth budget, in the spec's words: every symlink or plain-file entry of the nested
  listing, paired with the nesting level of the directory that holds it (the listing
  root is level \<open>level\<close>, its sub-directories one more, and so on). No budget is
  applied here; \<open>withinBudget\<close> then keeps the files of the levels below a bound.
\<close>

function listingWithLevels ::
    "RemoteEntry list \<Rightarrow> string \<Rightarrow> string \<Rightarrow> nat \<Rightarrow> (FtpFile \<times> nat) list"
  and listingWithLevels_loop ::
    "RemoteEntry list \<Rightarrow> string \<Rightarrow> string \<Rightarrow> nat \<Rightarrow> (FtpFile \<times> nat) list"
where
  "listingWithLevels data base relativePath level =
     listingWithLevels_loop data base (appendSlash relativePath) level"
| "listingWithLevels_loop [] base relativePath level = []"
| "listingWithLevels_loop (file # rest) base relativePath level =
     (if entry_type file = FTP_TYPE_SYM_LINK \<or> entry_type file = FTP_TYPE_FILE then
        (newFtpFile base relativePath file, level)
          # listingWithLevels_loop rest base relativePath level
      else if entry_type file = FTP_TYPE_DIRECTORY then
        (case entry_children file of
           Some children \<Rightarrow>
             listingWithLevels children base (relativePath @ entry_name file) (Suc level)
               @ listingWithLevels_loop rest base relativePath level
         | None \<Rightarrow> listingWithLevels_loop rest base relativePath level)
      else listingWithLevels_loop rest base relativePath level)"
  by pat_completeness auto
termination
  by (relation "measure (\<lambda>x. case x of
         Inl (data, _) \<Rightarrow> 2 * size_list size data + 1
       | Inr (data, _) \<Rightarrow> 2 * size_list size data)")
     (auto dest: size_entry_children)

definition withinBudget :: "int \<Rightarrow> (FtpFile \<times> nat) list \<Rightarrow> FtpFile list" where
  "withinBudget bound files = map fst (filter (\<lambda>p. int (snd p) < bound) files)"


section \<open>FtpScanner: the scan session\<close>

text \<open>
  The two callbacks handed to the constructor are held in fields that \<^verbatim>\<open>finish()\<close>
  overwrites with no-ops. A callback field therefore holds one of two functions: the one
  supplied at construction, or the no-op \<^verbatim>\<open>() => { }\<close>.
\<close>

datatype callback = Supplied | Noop

text \<open>
  The error values the scanner passes on: an error object of the listing client with its
  \<^verbatim>\<open>code\<close>, the string \<^verbatim>\<open>"Scan cancelled"\<close>, and the string
  \<^verbatim>\<open>"Error getting data for " + file.fullPath\<close>.
\<close>

datatype scan_error = FtpError int | ScanCancelled | ErrorGettingData string

text \<open>
  What a method can throw: the string \<^verbatim>\<open>"startScan called while scanning"\<close>, and the
  TypeError of \<^verbatim>\<open>this.ftp.destroy()\<close> or \<^verbatim>\<open>downloadQueue.sort\<close> on \<^verbatim>\<open>undefined\<close>.
\<close>

datatype js_exception = StartScanWhileScanning | TypeError

text \<open>
  Every call the scanner makes through one of its two callback fields, with the function
  the field held at the moment of the call and the arguments passed. The files handed to
  the completion callback are \<^verbatim>\<open>null\<close> (\<open>None\<close>) or the results array of
  \<^verbatim>\<open>async.mapLimit\<close>, whose slot for an item holds what the iteratee reported for it:
  the file, or \<^verbatim>\<open>undefined\<close> (a slot \<open>None\<close>) when it reported an error.
\<close>

datatype call =
  ScanCompleteCall callback "scan_error option" "FtpFile option list option"
| FileFoundCall callback FtpFile

datatype ftp_connection = Connected | Destroyed

text \<open>
  The request the listing client has outstanding, with what its callback closes over:
  the sync folder for \<^verbatim>\<open>ftp.lsr\<close>; for \<^verbatim>\<open>ftp.ls\<close> the file being resolved, the
  files \<^verbatim>\<open>async.mapLimit\<close> has not started yet and the results array as it stands.
\<close>

datatype request =
  NoRequest
| LsrRequest string
| LsRequest FtpFile "FtpFile list" "FtpFile option list"

text \<open>
  The fields of the class. \<open>timeout\<close> counts the watchdog timers that \<^verbatim>\<open>setTimeout\<close> has
  armed and that have neither fired nor been cleared; \<open>ftp = None\<close> is the field before
  the first \<^verbatim>\<open>startScan\<close>. \<open>pending\<close> and \<open>calls\<close> are the outstanding request and the
  log of callback calls.
\<close>

record FtpScanner =
  scanning :: bool
  cancelled :: bool
  timeout :: nat
  scanCompleteCallbackFunc :: callback
  scanFileFoundCallbackFunc :: callback
  ftp :: "ftp_connection option"
  pending :: request
  calls :: "call list"

definition newFtpScanner :: FtpScanner where
  "newFtpScanner =
     \<lparr> scanning = False, cancelled = False, timeout = 0,
       scanCompleteCallbackFunc = Supplied, scanFileFoundCallbackFunc = Supplied,
       ftp = None, pending = NoRequest, calls = [] \<rparr>"

text \<open>
  \<^verbatim>\<open>finish()\<close>: clears \<^verbatim>\<open>scanning\<close>, swaps both callbacks to no-ops, destroys the
  connection. Nothing here touches the timer. On a session that never started,
  \<^verbatim>\<open>this.ftp\<close> is undefined and the last statement throws, after the assignments.
\<close>

definition finish :: "FtpScanner \<Rightarrow> FtpScanner \<times> js_exception option" where
  "finish s =
     (let s1 = s\<lparr> scanning := False, scanCompleteCallbackFunc := Noop,
                   scanFileFoundCallbackFunc := Noop \<rparr>
      in case ftp s1 of
           None \<Rightarrow> (s1, Some TypeError)
         | Some c \<Rightarrow> (s1\<lparr> ftp := Some Destroyed \<rparr>, None))"

text \<open>
  \<^verbatim>\<open>scanComplete(err, files)\<close>: \<^verbatim>\<open>this.finish()\<close> first, then the call through the
  field \<^verbatim>\<open>this.scanCompleteCallbackFunc\<close>, read after \<^verbatim>\<open>finish()\<close> has run.
\<close>

definition scanComplete ::
    "scan_error option \<Rightarrow> FtpFile option list option \<Rightarrow> FtpScanner
      \<Rightarrow> FtpScanner \<times> js_exception option" where
  "scanComplete err files s =
     (case finish s of
        (s1, Some e) \<Rightarrow> (s1, Some e)
      | (s1, None) \<Rightarrow>
          (s1\<lparr> calls := calls s1 @ [ScanCompleteCall (scanCompleteCallbackFunc s1) err files] \<rparr>,
           None))"

definition cancel :: "FtpScanner \<Rightarrow> FtpScanner \<times> js_exception option" where
  "cancel s = finish (s\<lparr> cancelled := True \<rparr>)"

definition timeoutCancelCallback :: "FtpScanner \<Rightarrow> FtpScanner \<times> js_exception option" where
  "timeoutCancelCallback s =
     (if \<not> scanning s \<or> cancelled s then (s, None) else cancel s)"

text \<open>
  \<^verbatim>\<open>startScan()\<close> up to the point where it returns: the guard, the flag, the timer, the
  new connection and the \<^verbatim>\<open>lsr\<close> request on the configured sync folder.
\<close>

definition startScan :: "string \<Rightarrow> FtpScanner \<Rightarrow> FtpScanner \<times> js_exception option" where
  "startScan syncFolder s =
     (if scanning s then (s, Some StartScanWhileScanning)
      else (s\<lparr> scanning := True, timeout := Suc (timeout s), ftp := Some Connected,
                pending := LsrRequest syncFolder \<rparr>, None))"

definition ftpScanError :: "scan_error \<Rightarrow> FtpScanner \<Rightarrow> FtpScanner \<times> js_exception option" where
  "ftpScanError err s = scanComplete (Some err) None s"

definition fileFound :: "FtpFile \<Rightarrow> FtpScanner \<Rightarrow> FtpScanner" where
  "fileFound f s = s\<lparr> calls := calls s @ [FileFoundCall (scanFileFoundCallbackFunc s) f] \<rparr>"

text \<open>
  \<^verbatim>\<open>updateFileSizes\<close>: \<^verbatim>\<open>async.mapLimit(list, 1, iteratee, done)\<close> runs the iteratee on
  one file at a time, in order. \<open>updateFileSizes list results\<close> is the run from the
  files not started yet and the results array so far, up to the next \<^verbatim>\<open>ftp.ls\<close> request
  or to the final callback, which hands \<^verbatim>\<open>(err, results)\<close> to \<^verbatim>\<open>scanComplete\<close>.
  \<^verbatim>\<open>mapLimit\<close> stores what \<^verbatim>\<open>iterDone\<close> reports for an item (\<^verbatim>\<open>results[index] = v\<close>)
  before it looks at the error: \<^verbatim>\<open>iterDone(null, file)\<close> stores the file, and
  \<^verbatim>\<open>iterDone("Scan cancelled")\<close> stores \<^verbatim>\<open>undefined\<close>, so on an error the array handed
  on ends with an \<^verbatim>\<open>undefined\<close> slot for the failing item.
\<close>

fun updateFileSizes ::
    "FtpFile list \<Rightarrow> FtpFile option list \<Rightarrow> FtpScanner
      \<Rightarrow> FtpScanner \<times> js_exception option" where
  "updateFileSizes [] results s = scanComplete None (Some results) s"
| "updateFileSizes (file # rest) results s =
     (if cancelled s then scanComplete (Some ScanCancelled) (Some (results @ [None])) s
      else if \<not> isSymLink file then
        updateFileSizes rest (results @ [Some file]) (fileFound file s)
      else (s\<lparr> pending := LsRequest file rest results \<rparr>, None))"

text \<open>
  The callback of \<^verbatim>\<open>ftp.ls(file.fullPath, ...)\<close> inside \<^verbatim>\<open>updateFileSizes\<close>. Its two
  error exits call \<^verbatim>\<open>iterDone\<close> with the error alone, which leaves the file's slot
  \<^verbatim>\<open>undefined\<close>.
\<close>

definition lsCallback ::
    "FtpFile \<Rightarrow> FtpFile list \<Rightarrow> FtpFile option list \<Rightarrow> int option \<Rightarrow> RemoteEntry list
      \<Rightarrow> FtpScanner \<Rightarrow> FtpScanner \<times> js_exception option" where
  "lsCallback file rest results err data s =
     (if cancelled s then scanComplete (Some ScanCancelled) (Some (results @ [None])) s
      else if err \<noteq> None \<or> length data \<noteq> 1 then
        scanComplete (Some (ErrorGettingData (fullPath file))) (Some (results @ [None])) s
      else (let resolved = file\<lparr> targetData := Some (hd data) \<rparr>
            in updateFileSizes rest (results @ [Some resolved]) (fileFound resolved s)))"

text \<open>
  Modelled from the spec: \<^verbatim>\<open>FtpFile.sortNewestFirst\<close>, the comparator handed to
  \<^verbatim>\<open>Array.sort\<close>: newest first by modification time.
\<close>

definition sortNewestFirst :: "FtpFile list \<Rightarrow> FtpFile list" where
  "sortNewestFirst files = sort_key (\<lambda>f. - mtime f) files"

text \<open>The callback of \<^verbatim>\<open>ftp.lsr(syncFolder, ...)\<close> inside \<^verbatim>\<open>startScan\<close>.\<close>

definition lsrCallback ::
    "string \<Rightarrow> int option \<Rightarrow> RemoteEntry list \<Rightarrow> FtpScanner
      \<Rightarrow> FtpScanner \<times> js_exception option" where
  "lsrCallback syncFolder err data s =
     (case err of
        Some code \<Rightarrow> ftpScanError (FtpError code) s
      | None \<Rightarrow>
          (case fst (processFilesJSON data syncFolder 20 [] []) of
             None \<Rightarrow> (s, Some TypeError)
           | Some downloadQueue \<Rightarrow> updateFileSizes (sortNewestFirst downloadQueue) [] s))"

text \<open>
  What can happen to a session: a call of one of its two public methods, the watchdog
  timer firing, the connection emitting \<^verbatim>\<open>error\<close> or \<^verbatim>\<open>timeout\<close>, and the listing client
  answering the outstanding request. A reply runs the callback of the outstanding
  request of its kind and is dropped when there is none; the connection's handlers exist
  once \<^verbatim>\<open>startScan\<close> has attached them; a timer fires only when one is armed.
\<close>

datatype event =
  StartScan string
| Cancel
| WatchdogFires
| FtpErrorEvent int
| LsrReply "int option" "RemoteEntry list"
| LsReply "int option" "RemoteEntry list"

fun step :: "event \<Rightarrow> FtpScanner \<Rightarrow> FtpScanner \<times> js_exception option" where
  "step (StartScan syncFolder) s = startScan syncFolder s"
| "step Cancel s = cancel s"
| "step WatchdogFires s =
     (if timeout s = 0 then (s, None)
      else timeoutCancelCallback (s\<lparr> timeout := timeout s - 1 \<rparr>))"
| "step (FtpErrorEvent code) s =
     (if ftp s = None then (s, None) else ftpScanError (FtpError code) s)"
| "step (LsrReply err data) s =
     (case pending s of
        LsrRequest syncFolder \<Rightarrow> lsrCallback syncFolder err data (s\<lparr> pending := NoRequest \<rparr>)
      | _ \<Rightarrow> (s, None))"
| "step (LsReply err data) s =
     (case pending s of
        LsRequest file rest results \<Rightarrow>
          lsCallback file rest results err data (s\<lparr> pending := NoRequest \<rparr>)
      | _ \<Rightarrow> (s, None))"

text \<open>A run of events; an exception ends the handler that threw, not the session.\<close>

fun run :: "event list \<Rightarrow> FtpScanner \<Rightarrow> FtpScanner" where
  "run [] s = s"
| "run (e # es) s = run es (fst (step e s))"

text \<open>The calls that reached the callbacks supplied at construction.\<close>

fun reachedConsumer :: "call \<Rightarrow> bool" where
  "reachedConsumer (ScanCompleteCall cb err files) = (cb = Supplied)"
| "reachedConsumer (FileFoundCall cb f) = (cb = Supplied)"

fun isCompletion :: "call \<Rightarrow> bool" where
  "isCompletion (ScanCompleteCall cb err files) = True"
| "isCompletion (FileFoundCall cb f) = False"

definition completionsDelivered :: "FtpScanner \<Rightarrow> call list" where
  "completionsDelivered s = filter (\<lambda>c. isCompletion c \<and> reachedConsumer c) (calls s)"

definition filesDelivered :: "FtpScanner \<Rightarrow> call list" where
  "filesDelivered s = filter (\<lambda>c. \<not> isCompletion c \<and> reachedConsumer c) (calls s)"


section \<open>SyncController: the download queue\<close>

text \<open>
  The configuration object read by the controller: \<^verbatim>\<open>config.pathMappings\<close> (which may be
  absent), \<^verbatim>\<open>config.localSyncRoot\<close>, \<^verbatim>\<open>config.downloads.countMax\<close> and
  \<^verbatim>\<open>config.deleteRemoteFiles\<close>.
\<close>

record PathMapping =
  remotePath :: string
  localPath :: string

record Config =
  pathMappings :: "PathMapping list option"
  localSyncRoot :: string
  countMax :: nat
  deleteRemoteFiles :: bool

text \<open>
  Modelled from the spec: \<^verbatim>\<open>Utils.sanitizeFtpPath\<close> is imported by the source but is not
  part of it. Filesystem-unsafe characters are removed from every path segment, and the
  slashes that separate the segments stay. The result is a path to put behind a root
  that ends in a slash: slashes at its front are dropped, as the spec's destination
  example has it (\<^verbatim>\<open>/movies/\<close> under the root \<^verbatim>\<open>/dest/default\<close> is
  \<^verbatim>\<open>/dest/default/movies/\<close>). Which characters are unsafe is left open: it is the
  parameter \<open>unsafe\<close>.
\<close>

definition sanitizeFtpPath :: "(char \<Rightarrow> bool) \<Rightarrow> string \<Rightarrow> string" where
  "sanitizeFtpPath unsafe path =
     dropWhile (\<lambda>c. c = CHR ''/'') (filter (\<lambda>c. c = CHR ''/'' \<or> \<not> unsafe c) path)"

text \<open>
  \<^verbatim>\<open>getDestinationDirectory(file)\<close>. \<open>pathMappings_loop\<close> is the \<^verbatim>\<open>for ... of\<close> loop over
  the mappings with its early return; \<^verbatim>\<open>remoteDirectory.indexOf(pathMapDirectory) == 0\<close>
  holds exactly when the first characters of \<^verbatim>\<open>remoteDirectory\<close> are
  \<^verbatim>\<open>pathMapDirectory\<close>, and \<^verbatim>\<open>substring(pathMapDirectory.length)\<close> drops them.
\<close>

fun pathMappings_loop ::
    "(char \<Rightarrow> bool) \<Rightarrow> string \<Rightarrow> PathMapping list \<Rightarrow> string option" where
  "pathMappings_loop unsafe remoteDirectory [] = None"
| "pathMappings_loop unsafe remoteDirectory (pathMap # rest) =
     (let pathMapDirectory = appendSlash (remotePath pathMap)
      in if take (length pathMapDirectory) remoteDirectory = pathMapDirectory then
           Some (appendSlash (localPath pathMap)
                   @ sanitizeFtpPath unsafe (drop (length pathMapDirectory) remoteDirectory))
         else pathMappings_loop unsafe remoteDirectory rest)"

definition getDestinationDirectory :: "Config \<Rightarrow> (char \<Rightarrow> bool) \<Rightarrow> FtpFile \<Rightarrow> string" where
  "getDestinationDirectory config unsafe file =
     (case (case pathMappings config of
              None \<Rightarrow> None
            | Some mappings \<Rightarrow> pathMappings_loop unsafe (relativeDirectory file) mappings) of
        Some directory \<Rightarrow> directory
      | None \<Rightarrow>
          appendSlash (localSyncRoot config) @ sanitizeFtpPath unsafe (relativeDirectory file))"

text \<open>
  \<^verbatim>\<open>fileAlreadyDownloaded(file)\<close>; \<open>existsSync\<close> is \<^verbatim>\<open>fs.existsSync\<close>, the local file
  system at the moment of the call.
\<close>

definition fileAlreadyDownloaded ::
    "Config \<Rightarrow> (char \<Rightarrow> bool) \<Rightarrow> (string \<Rightarrow> bool) \<Rightarrow> FtpFile \<Rightarrow> bool" where
  "fileAlreadyDownloaded config unsafe existsSync file =
     existsSync (appendSlash (getDestinationDirectory config unsafe file)
                  @ sanitizeFtpPath unsafe (name file))"

text \<open>
  The queue holds references to \<^verbatim>\<open>FtpFile\<close> objects: the downloader sets
  \<^verbatim>\<open>downloading\<close> on the object the queue refers to, and \<^verbatim>\<open>removeFileFromQueue\<close>
  compares references (\<^verbatim>\<open>==\<close>). A queue entry is the reference (a number) with the
  current fields of the object it refers to.
\<close>

type_synonym FileRef = "nat \<times> FtpFile"

record SyncController =
  downloadQueue :: "FileRef list"
  remoteDeleteQueue :: "FileRef list"
  downloaders :: "(nat \<times> string) list"
  notifications :: "string list"

definition newSyncController :: SyncController where
  "newSyncController =
     \<lparr> downloadQueue = [], remoteDeleteQueue = [], downloaders = [], notifications = [] \<rparr>"

text \<open>
  \<^verbatim>\<open>getNextFileToDownload()\<close>: the loop carries \<^verbatim>\<open>downloadingCount\<close> and \<^verbatim>\<open>nextFile\<close>.
\<close>

fun getNextFile_loop ::
    "FileRef list \<Rightarrow> nat \<Rightarrow> FileRef option \<Rightarrow> nat \<times> FileRef option" where
  "getNextFile_loop [] downloadingCount nextFile = (downloadingCount, nextFile)"
| "getNextFile_loop (file # rest) downloadingCount nextFile =
     (if \<not> downloading (snd file) then
        (if nextFile = None then getNextFile_loop rest downloadingCount (Some file)
         else getNextFile_loop rest downloadingCount nextFile)
      else getNextFile_loop rest (downloadingCount + 1) nextFile)"

definition getNextFileToDownload :: "Config \<Rightarrow> FileRef list \<Rightarrow> FileRef option" where
  "getNextFileToDownload config queue =
     (case getNextFile_loop queue 0 None of
        (downloadingCount, nextFile) \<Rightarrow>
          if downloadingCount < countMax config then nextFile else None)"

text \<open>
  Modelled from the spec: \<^verbatim>\<open>FtpDownloader\<close> is imported by the source but is not part of
  it. Starting a transfer sets \<^verbatim>\<open>downloading\<close> on the file object, which every queue
  entry holding that reference sees.
\<close>

definition startDownload :: "nat \<Rightarrow> FileRef list \<Rightarrow> FileRef list" where
  "startDownload ref queue =
     map (\<lambda>entry. if fst entry = ref then (fst entry, (snd entry)\<lparr> downloading := True \<rparr>)
                   else entry) queue"

definition waiting :: "FileRef list \<Rightarrow> nat" where
  "waiting queue = length (filter (\<lambda>entry. \<not> downloading (snd entry)) queue)"

lemma waiting_startDownload_le: "waiting (startDownload ref queue) \<le> waiting queue"
  unfolding waiting_def startDownload_def
  by (induction queue) auto

lemma waiting_startDownload_less:
  "(ref, f) \<in> set queue \<Longrightarrow> \<not> downloading f
    \<Longrightarrow> waiting (startDownload ref queue) < waiting queue"
proof (induction queue)
  case Nil
  then show ?case by simp
next
  case (Cons entry queue)
  have le: "waiting (startDownload ref queue) \<le> waiting queue"
    by (rule waiting_startDownload_le)
  show ?case
  proof (cases "entry = (ref, f)")
    case True
    with Cons.prems le show ?thesis
      by (simp add: waiting_def startDownload_def)
  next
    case False
    with Cons have "waiting (startDownload ref queue) < waiting queue" by simp
    then show ?thesis
      by (simp add: waiting_def startDownload_def)
  qed
qed

lemma getNextFile_loop_next:
  "getNextFile_loop queue n nextFile = (m, Some file)
    \<Longrightarrow> nextFile = Some file \<or> (file \<in> set queue \<and> \<not> downloading (snd file))"
  by (induction queue n nextFile rule: getNextFile_loop.induct) (auto split: if_splits)

lemma getNextFileToDownload_waiting:
  "getNextFileToDownload config queue = Some file
    \<Longrightarrow> file \<in> set queue \<and> \<not> downloading (snd file)"
  by (auto simp: getNextFileToDownload_def split: prod.splits if_splits
           dest: getNextFile_loop_next)

text \<open>
  \<^verbatim>\<open>downloadNextInQueue()\<close>: \<^verbatim>\<open>while (file = this.getNextFileToDownload())\<close> creates a
  downloader for the file and its destination directory and starts it.
\<close>

function downloadNextInQueue ::
    "Config \<Rightarrow> (char \<Rightarrow> bool) \<Rightarrow> SyncController \<Rightarrow> SyncController" where
  "downloadNextInQueue config unsafe s =
     (case getNextFileToDownload config (downloadQueue s) of
        None \<Rightarrow> s
      | Some file \<Rightarrow>
          downloadNextInQueue config unsafe
            (s\<lparr> downloadQueue := startDownload (fst file) (downloadQueue s),
                 downloaders := downloaders s
                   @ [(fst file, getDestinationDirectory config unsafe (snd file))] \<rparr>))"
  by pat_completeness auto
termination
proof (relation "measure (\<lambda>(config, unsafe, s). waiting (downloadQueue s))")
  show "wf (measure (\<lambda>(config, unsafe, s). waiting (downloadQueue s)))"
    by simp
next
  fix config :: Config and unsafe :: "char \<Rightarrow> bool" and s :: SyncController and nxt :: FileRef
  assume "getNextFileToDownload config (downloadQueue s) = Some nxt"
  then have "nxt \<in> set (downloadQueue s)" "\<not> downloading (snd nxt)"
    by (auto dest: getNextFileToDownload_waiting)
  then have "waiting (startDownload (fst nxt) (downloadQueue s)) < waiting (downloadQueue s)"
    using waiting_startDownload_less [of "fst nxt" "snd nxt"] by simp
  then show "((config, unsafe,
               s\<lparr> downloadQueue := startDownload (fst nxt) (downloadQueue s),
                   downloaders := downloaders s
                     @ [(fst nxt, getDestinationDirectory config unsafe (snd nxt))] \<rparr>),
              (config, unsafe, s))
             \<in> measure (\<lambda>(config, unsafe, s). waiting (downloadQueue s))"
    by simp
qed

declare downloadNextInQueue.simps [simp del]

text \<open>
  \<^verbatim>\<open>removeFileFromQueue(ftpFile, queue)\<close>: the index loop with \<^verbatim>\<open>splice(t, 1)\<close>. After a
  splice the next element moves to index \<^verbatim>\<open>t\<close> and the loop goes on at \<^verbatim>\<open>t + 1\<close>, so
  the element that follows a removed one is not compared.
\<close>

fun removeFileFromQueue :: "nat \<Rightarrow> FileRef list \<Rightarrow> FileRef list" where
  "removeFileFromQueue ftpFile [] = []"
| "removeFileFromQueue ftpFile [entry] = (if fst entry = ftpFile then [] else [entry])"
| "removeFileFromQueue ftpFile (entry # following # rest) =
     (if fst entry = ftpFile then following # removeFileFromQueue ftpFile rest
      else entry # removeFileFromQueue ftpFile (following # rest))"

definition addToRemoteDeleteQueue :: "Config \<Rightarrow> FileRef \<Rightarrow> SyncController \<Rightarrow> SyncController" where
  "addToRemoteDeleteQueue config file s =
     (if \<not> deleteRemoteFiles config then s
      else s\<lparr> remoteDeleteQueue := remoteDeleteQueue s @ [file] \<rparr>)"

definition scannerFileFound ::
    "Config \<Rightarrow> (char \<Rightarrow> bool) \<Rightarrow> (string \<Rightarrow> bool) \<Rightarrow> FileRef \<Rightarrow> SyncController
      \<Rightarrow> SyncController" where
  "scannerFileFound config unsafe existsSync file s =
     (if fileAlreadyDownloaded config unsafe existsSync (snd file) then
        addToRemoteDeleteQueue config file s
      else if \<not> list_ex (\<lambda>otherFile. equals (snd file) (snd otherFile)) (downloadQueue s) then
        downloadNextInQueue config unsafe (s\<lparr> downloadQueue := downloadQueue s @ [file] \<rparr>)
      else s)"

definition downloadDone ::
    "Config \<Rightarrow> (char \<Rightarrow> bool) \<Rightarrow> bool \<Rightarrow> FileRef \<Rightarrow> SyncController \<Rightarrow> SyncController" where
  "downloadDone config unsafe err file s =
     (let s1 = (if \<not> err then addToRemoteDeleteQueue config file s else s);
          s2 = (if \<not> err then
                  s1\<lparr> notifications := notifications s1
                        @ [''Download completed '' @ name (snd file)] \<rparr>
                else s1);
          s3 = s2\<lparr> downloadQueue := removeFileFromQueue (fst file) (downloadQueue s2) \<rparr>
      in downloadNextInQueue config unsafe s3)"

text \<open>
  What reaches the controller: the scanner reporting a file (with the local file system
  as it is then), and a downloader reporting the end of a transfer.
\<close>

datatype sync_event =
  ScannerFileFound "string \<Rightarrow> bool" FileRef
| DownloadDone bool FileRef

fun syncStep :: "Config \<Rightarrow> (char \<Rightarrow> bool) \<Rightarrow> sync_event \<Rightarrow> SyncController \<Rightarrow> SyncController" where
  "syncStep config unsafe (ScannerFileFound existsSync file) s =
     scannerFileFound config unsafe existsSync file s"
| "syncStep config unsafe (DownloadDone err file) s = downloadDone config unsafe err file s"

fun syncRun ::
    "Config \<Rightarrow> (char \<Rightarrow> bool) \<Rightarrow> sync_event list \<Rightarrow> SyncController \<Rightarrow> SyncController" where
  "syncRun config unsafe [] s = s"
| "syncRun config unsafe (e # es) s = syncRun config unsafe es (syncStep config unsafe e s)"

definition downloadingCount :: "FileRef list \<Rightarrow> nat" where
  "downloadingCount queue = length (filter (\<lambda>entry. downloading (snd entry)) queue)"


section \<open>Instances used by the examples\<close>

text \<open>A scan of an empty remote tree.\<close>

definition emptyScan :: "event list" where
  "emptyScan = [StartScan ''/sync'', LsrReply None []]"

definition symLinkEntry :: "string \<Rightarrow> int \<Rightarrow> RemoteEntry" where
  "symLinkEntry n t = RemoteEntry n FTP_TYPE_SYM_LINK t None"

definition targetEntry :: "string \<Rightarrow> RemoteEntry" where
  "targetEntry n = RemoteEntry n FTP_TYPE_FILE 0 None"

definition fiveLinks :: "RemoteEntry list" where
  "fiveLinks = [symLinkEntry ''a'' 5, symLinkEntry ''b'' 4, symLinkEntry ''c'' 3,
                symLinkEntry ''d'' 2, symLinkEntry ''e'' 1]"

text \<open>
  A scan that finds five symlinks, resolves and reports two of them, is cancelled while
  the third resolution is in flight, and then gets the answer to that third request.
\<close>

definition cancelScenario :: "event list" where
  "cancelScenario =
     [StartScan ''/sync'', LsrReply None fiveLinks,
      LsReply None [targetEntry ''a''], LsReply None [targetEntry ''b''],
      Cancel, LsReply None [targetEntry ''c'']]"

text \<open>The session of \<open>cancelScenario\<close> with the first resolution in flight.\<close>

definition resolvingFirst :: FtpScanner where
  "resolvingFirst = run (take 2 cancelScenario) newFtpScanner"

definition linkFile :: "string \<Rightarrow> int \<Rightarrow> FtpFile" where
  "linkFile n t = newFtpFile ''/sync'' ''/'' (symLinkEntry n t)"

text \<open>A listing three levels deep: a link at the root, a file in \<open>d\<close>, a file in \<open>d/e\<close>.\<close>

definition nestedListing :: "RemoteEntry list" where
  "nestedListing =
     [symLinkEntry ''a'' 1,
      RemoteEntry ''d'' FTP_TYPE_DIRECTORY 1
        (Some [targetEntry ''b'',
               RemoteEntry ''e'' FTP_TYPE_DIRECTORY 1 (Some [targetEntry ''c''])])]"

text \<open>The configuration of the spec's destination example.\<close>

definition exampleConfig :: Config where
  "exampleConfig =
     \<lparr> pathMappings = Some [\<lparr> remotePath = ''/tv'', localPath = ''/dest/tv'' \<rparr>],
       localSyncRoot = ''/dest/default'', countMax = 2, deleteRemoteFiles = True \<rparr>"

text \<open>
  An instance of the sanitizer's parameter: the characters that common file systems
  reserve in a file name.
\<close>

definition reservedCharacter :: "char \<Rightarrow> bool" where
  "reservedCharacter c = (c \<in> set ''<>:|?*'' \<or> c = CHR 0x22 \<or> c = CHR 0x5C)"

definition fileIn :: "string \<Rightarrow> string \<Rightarrow> FtpFile" where
  "fileIn directory n =
     \<lparr> basePath = ''/sync'', relativeDirectory = directory, name = n, isSymLink = True,
       mtime = 0, targetData = None, downloading = False \<rparr>"

text \<open>The object behind reference \<open>r\<close> in the queue examples, and an empty local disk.\<close>

definition exampleFile :: "nat \<Rightarrow> FileRef" where
  "exampleFile r = (r, fileIn ''/tv/showA/'' (replicate r (CHR ''x'')))"

definition nothingOnDisk :: "string \<Rightarrow> bool" where
  "nothingOnDisk path = False"

text \<open>Three files found, then the transfer of the first one ends without an error.\<close>

definition threeFoundOneDone :: "sync_event list" where
  "threeFoundOneDone =
     [ScannerFileFound nothingOnDisk (exampleFile 1),
      ScannerFileFound nothingOnDisk (exampleFile 2),
      ScannerFileFound nothingOnDisk (exampleFile 3),
      DownloadDone False (exampleFile 1)]"

section \<open>Notions the properties are stated with\<close>

text \<open>
  A session is quiet when both callback fields hold the no-op; \<open>heard\<close> are the calls
  that reached the functions supplied at construction.
\<close>

definition quiet :: "FtpScanner \<Rightarrow> bool" where
  "quiet s = (scanCompleteCallbackFunc s = Noop \<and> scanFileFoundCallbackFunc s = Noop)"

definition heard :: "FtpScanner \<Rightarrow> call list" where
  "heard s = filter reachedConsumer (calls s)"

text \<open>The identity of a queue entry: what \<^verbatim>\<open>equals\<close> compares.\<close>

definition fileKey :: "FileRef \<Rightarrow> string" where
  "fileKey entry = fullPath (snd entry)"

text \<open>
  What the scanner hands to the controller: an object fresh from the flattener is not
  downloading, and a reference denotes one object, whose identity \<open>ident\<close> gives (the
  path fields of an object never change).
\<close>

fun deliveredFresh :: "(nat \<Rightarrow> string) \<Rightarrow> sync_event \<Rightarrow> bool" where
  "deliveredFresh ident (ScannerFileFound existsSync file) =
     (\<not> downloading (snd file) \<and> fullPath (snd file) = ident (fst file))"
| "deliveredFresh ident (DownloadDone err file) = True"

definition queueInv :: "Config \<Rightarrow> (nat \<Rightarrow> string) \<Rightarrow> FileRef list \<Rightarrow> bool" where
  "queueInv config ident queue =
     (downloadingCount queue \<le> countMax config \<and> distinct (map fileKey queue)
      \<and> list_all (\<lambda>entry. fileKey entry = ident (fst entry)) queue)"




section \<open>The flattener and the depth budget\<close>

lemma levels_ge:
  "p \<in> set (listingWithLevels data base rel level) \<Longrightarrow> level \<le> snd p"
  "p \<in> set (listingWithLevels_loop data base rel level) \<Longrightarrow> level \<le> snd p"
  by (induction data base rel level and data base rel level
      rule: listingWithLevels_listingWithLevels_loop.induct)
     (auto split: if_splits option.splits)

lemma withinBudget_append [simp]:
  "withinBudget b (xs @ ys) = withinBudget b xs @ withinBudget b ys"
  by (simp add: withinBudget_def)

lemma withinBudget_none:
  "withinBudget (int level) (listingWithLevels data base rel level) = []"
  by (auto simp: withinBudget_def filter_empty_conv dest: levels_ge(2))

lemma flatten_levels:
  "0 \<le> depth \<Longrightarrow> snd (processFilesJSON data base depth rel out)
      = out @ withinBudget (int level + depth) (listingWithLevels data base rel level)"
  "0 < depth \<Longrightarrow> processFiles_loop data base depth rel out
      = out @ withinBudget (int level + depth) (listingWithLevels_loop data base rel level)"
proof (induction data base depth rel out and data base depth rel out
       arbitrary: level and level rule: processFilesJSON_processFiles_loop.induct)
  case (1 data base depth relativePath outList)
  then show ?case
    by (auto simp: Let_def withinBudget_none[unfolded listingWithLevels.simps])
next
  case (2 base depth relativePath outList)
  then show ?case by (simp add: withinBudget_def)
next
  case (3 f rest base depth relativePath outList)
  show ?case
  proof (cases "entry_type f = FTP_TYPE_SYM_LINK \<or> entry_type f = FTP_TYPE_FILE")
    case True
    with 3 show ?thesis by (auto simp: withinBudget_def)
  next
    case notfile: False
    show ?thesis
    proof (cases "entry_type f = FTP_TYPE_DIRECTORY")
      case isdir: True
      show ?thesis
      proof (cases "entry_children f")
        case None
        with notfile isdir 3 show ?thesis by simp
      next
        case (Some children)
        have a: "snd (processFilesJSON children base (depth - 1) (relativePath @ entry_name f) outList)
           = outList @ withinBudget (int (Suc level) + (depth - 1))
               (listingWithLevels children base (relativePath @ entry_name f) (Suc level))"
          using "3.IH"(3)[OF notfile isdir Some, of "Suc level"] "3.prems" by simp
        have b: "int (Suc level) + (depth - 1) = int level + depth" by simp
        show ?thesis
          using notfile isdir Some "3.IH"(4)[OF notfile isdir Some "3.prems", of level] a
          unfolding b
          by simp
      qed
    next
      case False
      with notfile 3 show ?thesis by simp
    qed
  qed
qed

section \<open>The session: teardown and the callbacks\<close>

lemma finish_fields:
  "scanning (fst (finish s)) = False"
  "cancelled (fst (finish s)) = cancelled s"
  "timeout (fst (finish s)) = timeout s"
  "scanCompleteCallbackFunc (fst (finish s)) = Noop"
  "scanFileFoundCallbackFunc (fst (finish s)) = Noop"
  "pending (fst (finish s)) = pending s"
  "calls (fst (finish s)) = calls s"
  by (simp_all add: finish_def Let_def split: option.splits)

lemma scanComplete_fields:
  "scanning (fst (scanComplete err files s)) = False"
  "cancelled (fst (scanComplete err files s)) = cancelled s"
  "timeout (fst (scanComplete err files s)) = timeout s"
  "scanCompleteCallbackFunc (fst (scanComplete err files s)) = Noop"
  "scanFileFoundCallbackFunc (fst (scanComplete err files s)) = Noop"
  "pending (fst (scanComplete err files s)) = pending s"
  by (simp_all add: scanComplete_def finish_def Let_def split: option.splits prod.splits)

lemma scanComplete_calls:
  "calls (fst (scanComplete err files s)) =
     (if ftp s = None then calls s else calls s @ [ScanCompleteCall Noop err files])"
  by (simp add: scanComplete_def finish_def Let_def split: option.splits)

lemma scanComplete_heard: "heard (fst (scanComplete err files s)) = heard s"
  by (simp add: heard_def scanComplete_calls)

lemma scanComplete_quiet: "quiet (fst (scanComplete err files s))"
  by (simp add: quiet_def scanComplete_fields)

lemma fileFound_quiet:
  "quiet s \<Longrightarrow> quiet (fileFound f s) \<and> heard (fileFound f s) = heard s"
  by (simp add: quiet_def heard_def fileFound_def)

lemma pending_quiet:
  "quiet (s\<lparr> pending := r \<rparr>) = quiet s" "heard (s\<lparr> pending := r \<rparr>) = heard s"
  by (simp_all add: quiet_def heard_def)

lemma updateFileSizes_quiet:
  "quiet s \<Longrightarrow> quiet (fst (updateFileSizes list results s))
      \<and> heard (fst (updateFileSizes list results s)) = heard s"
proof (induction list arbitrary: results s)
  case Nil
  then show ?case by (simp add: scanComplete_quiet scanComplete_heard)
next
  case (Cons f list)
  show ?case
  proof (cases "cancelled s")
    case True
    then show ?thesis by (simp add: scanComplete_quiet scanComplete_heard)
  next
    case False
    show ?thesis
    proof (cases "isSymLink f")
      case True
      with False Cons.prems show ?thesis by (simp add: pending_quiet)
    next
      case notlink: False
      from Cons.prems have "quiet (fileFound f s)" "heard (fileFound f s) = heard s"
        by (simp_all add: fileFound_quiet)
      with Cons.IH[of "fileFound f s" "results @ [Some f]"] False notlink show ?thesis by simp
    qed
  qed
qed

lemma finish_quiet: "quiet (fst (finish s))" "heard (fst (finish s)) = heard s"
  by (simp_all add: quiet_def heard_def finish_fields)

lemma cancel_quiet: "quiet (fst (cancel s))" "heard (fst (cancel s)) = heard s"
  by (simp_all add: cancel_def finish_quiet) (simp add: heard_def)

lemma timeoutCancelCallback_quiet:
  "quiet s \<Longrightarrow> quiet (fst (timeoutCancelCallback s))
     \<and> heard (fst (timeoutCancelCallback s)) = heard s"
  by (simp add: timeoutCancelCallback_def cancel_quiet)

lemma lsCallback_quiet:
  "quiet s \<Longrightarrow> quiet (fst (lsCallback f rest results err data s))
     \<and> heard (fst (lsCallback f rest results err data s)) = heard s"
  using updateFileSizes_quiet[of "fileFound (f\<lparr>targetData := Some (hd data)\<rparr>) s"]
    fileFound_quiet[of s "f\<lparr>targetData := Some (hd data)\<rparr>"]
  by (simp add: lsCallback_def Let_def scanComplete_quiet scanComplete_heard)

lemma lsrCallback_quiet:
  "quiet s \<Longrightarrow> quiet (fst (lsrCallback root err data s))
     \<and> heard (fst (lsrCallback root err data s)) = heard s"
  by (simp add: lsrCallback_def ftpScanError_def scanComplete_quiet scanComplete_heard
        updateFileSizes_quiet split: option.splits)

lemma step_quiet:
  "quiet s \<Longrightarrow> quiet (fst (step e s)) \<and> heard (fst (step e s)) = heard s"
proof (cases e)
  case (StartScan root)
  assume "quiet s"
  with StartScan show ?thesis by (simp add: startScan_def quiet_def heard_def)
next
  case Cancel
  then show ?thesis by (simp add: cancel_quiet)
next
  case WatchdogFires
  assume q: "quiet s"
  then have "quiet (s\<lparr> timeout := timeout s - 1 \<rparr>)"
    "heard (s\<lparr> timeout := timeout s - 1 \<rparr>) = heard s"
    by (simp_all add: quiet_def heard_def)
  with q WatchdogFires timeoutCancelCallback_quiet[of "s\<lparr> timeout := timeout s - 1 \<rparr>"]
  show ?thesis by simp
next
  case (FtpErrorEvent code)
  assume "quiet s"
  with FtpErrorEvent show ?thesis
    by (simp add: ftpScanError_def scanComplete_quiet scanComplete_heard)
next
  case (LsrReply err data)
  assume q: "quiet s"
  show ?thesis
  proof (cases "pending s")
    case (LsrRequest root)
    with q LsrReply lsrCallback_quiet[of "s\<lparr> pending := NoRequest \<rparr>" root err data]
    show ?thesis by (simp add: pending_quiet)
  qed (use q LsrReply in simp_all)
next
  case (LsReply err data)
  assume q: "quiet s"
  show ?thesis
  proof (cases "pending s")
    case (LsRequest f rest results)
    with q LsReply lsCallback_quiet[of "s\<lparr> pending := NoRequest \<rparr>" f rest results err data]
    show ?thesis by (simp add: pending_quiet)
  qed (use q LsReply in simp_all)
qed

lemma run_quiet: "quiet s \<Longrightarrow> heard (run evs s) = heard s"
proof (induction evs arbitrary: s)
  case Nil
  then show ?case by simp
next
  case (Cons e evs)
  from step_quiet[OF Cons.prems, of e] Cons.IH[of "fst (step e s)"]
  show ?case by simp
qed

lemma updateFileSizes_completions:
  "completionsDelivered (fst (updateFileSizes list results s)) = completionsDelivered s"
proof (induction list arbitrary: results s)
  case Nil
  then show ?case by (simp add: completionsDelivered_def scanComplete_calls)
next
  case (Cons f list)
  have "completionsDelivered (fileFound f s) = completionsDelivered s"
    by (simp add: completionsDelivered_def fileFound_def)
  with Cons.IH[of "results @ [Some f]" "fileFound f s"] show ?case
    by (simp add: completionsDelivered_def scanComplete_calls)
qed

lemma step_completions: "completionsDelivered (fst (step e s)) = completionsDelivered s"
proof (cases e)
  case (LsrReply err data)
  then show ?thesis
    by (simp add: lsrCallback_def ftpScanError_def updateFileSizes_completions
          split: request.splits option.splits)
       (simp_all add: completionsDelivered_def scanComplete_calls)
next
  case (LsReply err data)
  then show ?thesis
    by (simp add: lsCallback_def Let_def updateFileSizes_completions split: request.splits)
       (simp_all add: completionsDelivered_def scanComplete_calls fileFound_def)
qed (simp_all add: completionsDelivered_def startScan_def cancel_def finish_fields
       timeoutCancelCallback_def ftpScanError_def scanComplete_calls)

lemma run_completions: "completionsDelivered (run evs s) = completionsDelivered s"
  by (induction evs arbitrary: s) (simp_all add: step_completions)

section \<open>The queue: scheduling and deduplication\<close>

lemma getNextFile_loop_eq:
  "getNextFile_loop queue n nextFile =
     (n + downloadingCount queue,
      case nextFile of None \<Rightarrow> find (\<lambda>entry. \<not> downloading (snd entry)) queue | Some x \<Rightarrow> Some x)"
  by (induction queue n nextFile rule: getNextFile_loop.induct)
     (auto simp: downloadingCount_def split: option.splits)

lemma getNextFileToDownload_eq:
  "getNextFileToDownload config queue =
     (if downloadingCount queue < countMax config
      then find (\<lambda>entry. \<not> downloading (snd entry)) queue else None)"
  by (simp add: getNextFileToDownload_def getNextFile_loop_eq)

lemma keys_startDownload: "map fileKey (startDownload ref queue) = map fileKey queue"
  by (induction queue) (auto simp: startDownload_def fileKey_def fullPath_def)

lemma keys_downloadNextInQueue:
  "map fileKey (downloadQueue (downloadNextInQueue config unsafe s)) = map fileKey (downloadQueue s)"
proof (induction config unsafe s rule: downloadNextInQueue.induct)
  case (1 config unsafe s)
  show ?case
  proof (cases "getNextFileToDownload config (downloadQueue s)")
    case None
    then show ?thesis by (subst downloadNextInQueue.simps) simp
  next
    case (Some f)
    with 1[OF Some] show ?thesis
      by (subst downloadNextInQueue.simps) (simp add: keys_startDownload)
  qed
qed




lemma find_waiting_Some:
  "find (\<lambda>entry. \<not> downloading (snd entry)) queue = Some e
    \<Longrightarrow> e \<in> set queue \<and> \<not> downloading (snd e)"
  by (auto simp: find_Some_iff)

lemma startDownload_count:
  "distinct (map fst queue) \<Longrightarrow> e \<in> set queue \<Longrightarrow> \<not> downloading (snd e)
    \<Longrightarrow> downloadingCount (startDownload (fst e) queue) = Suc (downloadingCount queue)"
proof (induction queue)
  case Nil
  then show ?case by simp
next
  case (Cons x queue)
  show ?case
  proof (cases "x = e")
    case True
    with Cons.prems have "fst e \<notin> fst ` set queue" by auto
    then have "startDownload (fst e) queue = queue"
      unfolding startDownload_def by (intro map_idI) (auto simp: image_iff)
    with True Cons.prems show ?thesis
      by (simp add: startDownload_def downloadingCount_def)
  next
    case False
    with Cons.prems have e: "e \<in> set queue" by simp
    with Cons.prems have "fst x \<noteq> fst e" by (auto simp: image_iff)
    with Cons.IH e Cons.prems show ?thesis
      by (simp add: startDownload_def downloadingCount_def)
  qed
qed


lemma queueInv_distinct_refs:
  assumes "distinct (map fileKey queue)"
    and "list_all (\<lambda>entry. fileKey entry = ident (fst entry)) queue"
  shows "distinct (map fst queue)"
proof -
  from assms(2) have "map fileKey queue = map ident (map fst queue)"
    by (induction queue) auto
  with assms(1) show ?thesis by (simp add: distinct_map[of ident] del: map_map) 
qed

lemma ident_startDownload:
  "list_all (\<lambda>entry. fileKey entry = ident (fst entry)) queue
    \<Longrightarrow> list_all (\<lambda>entry. fileKey entry = ident (fst entry)) (startDownload ref queue)"
  by (induction queue) (auto simp: startDownload_def fileKey_def fullPath_def)

lemma queueInv_downloadNextInQueue:
  "queueInv config ident (downloadQueue s)
    \<Longrightarrow> queueInv config ident (downloadQueue (downloadNextInQueue config unsafe s))"
proof (induction config unsafe s rule: downloadNextInQueue.induct)
  case (1 config unsafe s)
  show ?case
  proof (cases "getNextFileToDownload config (downloadQueue s)")
    case None
    with 1 show ?thesis by (subst downloadNextInQueue.simps) simp
  next
    case (Some f)
    let ?q = "downloadQueue s"
    from Some have lt: "downloadingCount ?q < countMax config"
      and f: "f \<in> set ?q" "\<not> downloading (snd f)"
      by (auto simp: getNextFileToDownload_eq split: if_splits dest: find_waiting_Some)
    from "1.prems" have d: "distinct (map fst ?q)"
      by (auto simp: queueInv_def intro: queueInv_distinct_refs)
    have "downloadingCount (startDownload (fst f) ?q) = Suc (downloadingCount ?q)"
      using d f by (rule startDownload_count)
    with lt "1.prems" have "queueInv config ident (startDownload (fst f) ?q)"
      by (simp add: queueInv_def keys_startDownload ident_startDownload)
    with "1.IH"[OF Some] Some show ?thesis
      by (subst downloadNextInQueue.simps) simp
  qed
qed

lemma set_removeFileFromQueue: "set (removeFileFromQueue ref queue) \<subseteq> set queue"
  by (induction ref queue rule: removeFileFromQueue.induct) auto

lemma distinct_removeFileFromQueue:
  "distinct (map k queue) \<Longrightarrow> distinct (map k (removeFileFromQueue ref queue))"
proof (induction ref queue rule: removeFileFromQueue.induct)
  case (3 ftpFile entry following rest)
  then show ?case
    using set_removeFileFromQueue[of ftpFile rest]
      set_removeFileFromQueue[of ftpFile "following # rest"]
    by (auto simp: image_iff)
qed auto

lemma count_removeFileFromQueue:
  "downloadingCount (removeFileFromQueue ref queue) \<le> downloadingCount queue"
  by (induction ref queue rule: removeFileFromQueue.induct) (auto simp: downloadingCount_def)

lemma queueInv_removeFileFromQueue:
  "queueInv config ident queue \<Longrightarrow> queueInv config ident (removeFileFromQueue ref queue)"
  unfolding queueInv_def
  using set_removeFileFromQueue[of ref queue] count_removeFileFromQueue[of ref queue]
  by (auto simp: list_all_iff distinct_removeFileFromQueue)

lemma queue_addToRemoteDeleteQueue [simp]:
  "downloadQueue (addToRemoteDeleteQueue config file s) = downloadQueue s"
  by (simp add: addToRemoteDeleteQueue_def)

lemma list_ex_equals:
  "list_ex (\<lambda>otherFile. equals (snd file) (snd otherFile)) queue
     = (fileKey file \<in> set (map fileKey queue))"
  by (auto simp: list_ex_iff equals_def fileKey_def)

lemma distinct_scannerFileFound:
  "distinct (map fileKey (downloadQueue s))
    \<Longrightarrow> distinct (map fileKey (downloadQueue (scannerFileFound config unsafe existsSync file s)))"
  by (simp add: scannerFileFound_def keys_downloadNextInQueue list_ex_equals)

lemma distinct_downloadDone:
  "distinct (map fileKey (downloadQueue s))
    \<Longrightarrow> distinct (map fileKey (downloadQueue (downloadDone config unsafe err file s)))"
  by (simp add: downloadDone_def Let_def keys_downloadNextInQueue distinct_removeFileFromQueue)

lemma distinct_syncRun:
  "distinct (map fileKey (downloadQueue s))
    \<Longrightarrow> distinct (map fileKey (downloadQueue (syncRun config unsafe events s)))"
proof (induction events arbitrary: s)
  case Nil
  then show ?case by simp
next
  case (Cons e events)
  have "distinct (map fileKey (downloadQueue (syncStep config unsafe e s)))"
    using Cons.prems by (cases e) (simp_all add: distinct_scannerFileFound distinct_downloadDone)
  then show ?case using Cons.IH by simp
qed

lemma queueInv_scannerFileFound:
  assumes "queueInv config ident (downloadQueue s)"
    and "\<not> downloading (snd file)" and "fullPath (snd file) = ident (fst file)"
  shows "queueInv config ident (downloadQueue (scannerFileFound config unsafe existsSync file s))"
proof (cases "fileAlreadyDownloaded config unsafe existsSync (snd file)
              \<or> list_ex (\<lambda>otherFile. equals (snd file) (snd otherFile)) (downloadQueue s)")
  case True
  with assms(1) show ?thesis by (auto simp: scannerFileFound_def)
next
  case False
  then have "fileKey file \<notin> set (map fileKey (downloadQueue s))"
    by (simp add: list_ex_equals)
  with assms have "queueInv config ident (downloadQueue s @ [file])"
    by (simp add: queueInv_def downloadingCount_def fileKey_def)
  then have "queueInv config ident
      (downloadQueue (downloadNextInQueue config unsafe (s\<lparr> downloadQueue := downloadQueue s @ [file] \<rparr>)))"
    using queueInv_downloadNextInQueue[of config ident "s\<lparr> downloadQueue := downloadQueue s @ [file] \<rparr>"]
    by simp
  with False show ?thesis by (simp add: scannerFileFound_def)
qed

lemma queueInv_downloadDone:
  assumes "queueInv config ident (downloadQueue s)"
  shows "queueInv config ident (downloadQueue (downloadDone config unsafe err file s))"
proof -
  let ?s3 = "\<lambda>s2. s2\<lparr> downloadQueue := removeFileFromQueue (fst file) (downloadQueue s2) \<rparr>"
  have "\<And>s2. downloadQueue s2 = downloadQueue s \<Longrightarrow>
      queueInv config ident (downloadQueue (downloadNextInQueue config unsafe (?s3 s2)))"
    using assms by (intro queueInv_downloadNextInQueue) (simp add: queueInv_removeFileFromQueue)
  then show ?thesis
    by (simp add: downloadDone_def Let_def)
qed

lemma queueInv_syncRun:
  "queueInv config ident (downloadQueue s) \<Longrightarrow> list_all (deliveredFresh ident) events
    \<Longrightarrow> queueInv config ident (downloadQueue (syncRun config unsafe events s))"
proof (induction events arbitrary: s)
  case Nil
  then show ?case by simp
next
  case (Cons e events)
  have "queueInv config ident (downloadQueue (syncStep config unsafe e s))"
    using Cons.prems
    by (cases e) (simp_all add: queueInv_scannerFileFound queueInv_downloadDone)
  with Cons show ?case by simp
qed

lemma queueInv_new: "queueInv config ident (downloadQueue newSyncController)"
  by (simp add: queueInv_def newSyncController_def downloadingCount_def)

section \<open>Destination resolution\<close>



section \<open>The claims\<close>

text \<open>
  C1. A scan that reaches completion should invoke the completion callback supplied at
  construction exactly once. The code does not: \<^verbatim>\<open>scanComplete\<close> runs \<^verbatim>\<open>finish()\<close>
  first, which overwrites the field with the no-op, and only then calls through the
  field. On the scan of an empty remote tree the one completion call goes to the no-op
  and the supplied callback is invoked zero times; the same holds after every sequence
  of events on a new session.
\<close>

theorem scanComplete_calls_the_noop:
  "calls (run emptyScan newFtpScanner) = [ScanCompleteCall Noop None (Some [])]
   \<and> completionsDelivered (run emptyScan newFtpScanner) = []
   \<and> completionsDelivered (run events newFtpScanner) = []"
proof -
  have "calls (run emptyScan newFtpScanner) = [ScanCompleteCall Noop None (Some [])]"
    by code_simp
  moreover have "completionsDelivered (run events newFtpScanner) = []" for events
    by (simp add: run_completions) (simp add: completionsDelivered_def newFtpScanner_def)
  ultimately show ?thesis by simp
qed

theorem scanComplete_calls_the_noop_witness:
  "length (completionsDelivered (run emptyScan newFtpScanner)) = 0
   \<and> length (calls (run emptyScan newFtpScanner)) = 1"
  using scanComplete_calls_the_noop [of emptyScan] by simp

text \<open>
  C2, as amended. No teardown path (\<^verbatim>\<open>finish\<close>, reached on success and on error through
  \<^verbatim>\<open>scanComplete\<close>, and \<^verbatim>\<open>cancel\<close>) disarms the watchdog timer: the timers armed stay
  armed. Every teardown path clears \<^verbatim>\<open>scanning\<close>, so the watchdog callback, when the
  timer later fires against the torn-down session, returns without changing anything.
\<close>

theorem teardown_leaves_timer_armed:
  "timeout (fst (finish s)) = timeout s
   \<and> timeout (fst (cancel s)) = timeout s
   \<and> timeout (fst (scanComplete err files s)) = timeout s
   \<and> timeoutCancelCallback (fst (finish s)) = (fst (finish s), None)
   \<and> timeoutCancelCallback (fst (cancel s)) = (fst (cancel s), None)
   \<and> timeoutCancelCallback (fst (scanComplete err files s))
       = (fst (scanComplete err files s), None)"
  by (simp add: timeoutCancelCallback_def cancel_def finish_fields scanComplete_fields)

theorem teardown_leaves_timer_armed_witness:
  "timeout (fst (cancel (fst (startScan ''/sync'' newFtpScanner)))) = 1
   \<and> timeoutCancelCallback (fst (cancel (fst (startScan ''/sync'' newFtpScanner))))
       = (fst (cancel (fst (startScan ''/sync'' newFtpScanner))), None)"
proof -
  have "timeout (fst (startScan ''/sync'' newFtpScanner)) = 1"
    by (simp add: startScan_def newFtpScanner_def)
  with teardown_leaves_timer_armed [of "fst (startScan ''/sync'' newFtpScanner)"]
  show ?thesis by simp
qed

text \<open>
  The claim as stated fails: after each of the three teardown paths (cancel, successful
  completion, completion with an error) the timer armed by \<^verbatim>\<open>startScan\<close> is still armed.
\<close>

theorem teardown_does_not_disarm:
  "timeout (run [StartScan ''/sync'', Cancel] newFtpScanner) \<noteq> 0
   \<and> timeout (run emptyScan newFtpScanner) \<noteq> 0
   \<and> timeout (run [StartScan ''/sync'', LsrReply (Some 530) []] newFtpScanner) \<noteq> 0"
  by code_simp

text \<open>
  C3. Under any sequence of file-found and download-done events in which the scanner
  delivers files as it creates them (not downloading; one reference, one file identity),
  the number of queue entries with \<^verbatim>\<open>downloading\<close> set is at most
  \<^verbatim>\<open>config.downloads.countMax\<close> after every event. \<^verbatim>\<open>getNextFileToDownload\<close> returns
  the first entry that is not downloading when the number of downloading entries is
  below the cap, and nothing otherwise.
\<close>

theorem downloading_never_exceeds_cap:
  assumes "list_all (deliveredFresh ident) events"
  shows "downloadingCount (downloadQueue (syncRun config unsafe (take n events) newSyncController))
           \<le> countMax config
         \<and> getNextFileToDownload config queue =
             (if downloadingCount queue < countMax config
              then find (\<lambda>entry. \<not> downloading (snd entry)) queue else None)"
proof -
  from assms have "list_all (deliveredFresh ident) (take n events)"
    by (auto simp: list_all_iff dest: in_set_takeD)
  then have "queueInv config ident
      (downloadQueue (syncRun config unsafe (take n events) newSyncController))"
    by (intro queueInv_syncRun queueInv_new)
  then show ?thesis
    by (simp add: queueInv_def getNextFileToDownload_eq)
qed

theorem downloading_never_exceeds_cap_witness:
  "list_all (deliveredFresh (\<lambda>r. fullPath (snd (exampleFile r)))) threeFoundOneDone
   \<and> downloadingCount (downloadQueue
         (syncRun exampleConfig reservedCharacter (take 3 threeFoundOneDone) newSyncController))
       \<le> countMax exampleConfig
   \<and> map (\<lambda>entry. (fst entry, downloading (snd entry)))
         (downloadQueue
           (syncRun exampleConfig reservedCharacter (take 3 threeFoundOneDone) newSyncController))
       = [(1, True), (2, True), (3, False)]
   \<and> getNextFileToDownload exampleConfig
         (downloadQueue
           (syncRun exampleConfig reservedCharacter (take 3 threeFoundOneDone) newSyncController))
       = None
   \<and> map (\<lambda>entry. (fst entry, downloading (snd entry)))
         (downloadQueue
           (syncRun exampleConfig reservedCharacter (take 4 threeFoundOneDone) newSyncController))
       = [(2, True), (3, True)]"
proof -
  have h: "list_all (deliveredFresh (\<lambda>r. fullPath (snd (exampleFile r)))) threeFoundOneDone"
    by (simp add: threeFoundOneDone_def exampleFile_def fileIn_def)
  have q: "map (\<lambda>entry. (fst entry, downloading (snd entry)))
         (downloadQueue
           (syncRun exampleConfig reservedCharacter (take 3 threeFoundOneDone) newSyncController))
       = [(1, True), (2, True), (3, False)]"
    by code_simp
  have g: "getNextFileToDownload exampleConfig
         (downloadQueue
           (syncRun exampleConfig reservedCharacter (take 3 threeFoundOneDone) newSyncController))
       = None"
    by code_simp
  have d: "map (\<lambda>entry. (fst entry, downloading (snd entry)))
         (downloadQueue
           (syncRun exampleConfig reservedCharacter (take 4 threeFoundOneDone) newSyncController))
       = [(2, True), (3, True)]"
    by code_simp
  from downloading_never_exceeds_cap [OF h, of exampleConfig reservedCharacter 3] h q g d
  show ?thesis by blast
qed

text \<open>
  C4. Under every sequence of events that reaches the controller, no two entries of the
  download queue have the same identity (\<^verbatim>\<open>basePath + relativeDirectory + name\<close>); a
  file equal to a queued one is not appended: \<^verbatim>\<open>scannerFileFound\<close> leaves the queue as
  it is.
\<close>

theorem queue_has_no_duplicates:
  "distinct (map fileKey (downloadQueue (syncRun config unsafe events newSyncController)))
   \<and> (list_ex (\<lambda>otherFile. equals (snd found) (snd otherFile)) (downloadQueue s)
        \<longrightarrow> downloadQueue (scannerFileFound config unsafe existsSync found s) = downloadQueue s)"
  by (simp add: distinct_syncRun newSyncController_def scannerFileFound_def)

text \<open>The same file found twice, the second time as another object.\<close>

theorem queue_has_no_duplicates_witness:
  "list_ex (\<lambda>otherFile. equals (snd (exampleFile 1)) (snd otherFile))
     (downloadQueue (syncRun exampleConfig reservedCharacter
        [ScannerFileFound nothingOnDisk (exampleFile 1)] newSyncController))
   \<and> downloadQueue (scannerFileFound exampleConfig reservedCharacter nothingOnDisk
         (4, snd (exampleFile 1))
         (syncRun exampleConfig reservedCharacter
            [ScannerFileFound nothingOnDisk (exampleFile 1)] newSyncController))
       = downloadQueue (syncRun exampleConfig reservedCharacter
            [ScannerFileFound nothingOnDisk (exampleFile 1)] newSyncController)
   \<and> map fst (downloadQueue (syncRun exampleConfig reservedCharacter
         [ScannerFileFound nothingOnDisk (exampleFile 1),
          ScannerFileFound nothingOnDisk (4, snd (exampleFile 1)),
          ScannerFileFound nothingOnDisk (exampleFile 2)] newSyncController))
       = [1, 2]"
proof -
  have h: "list_ex (\<lambda>otherFile. equals (snd (4 :: nat, snd (exampleFile 1))) (snd otherFile))
     (downloadQueue (syncRun exampleConfig reservedCharacter
        [ScannerFileFound nothingOnDisk (exampleFile 1)] newSyncController))"
    by code_simp
  have q: "map fst (downloadQueue (syncRun exampleConfig reservedCharacter
         [ScannerFileFound nothingOnDisk (exampleFile 1),
          ScannerFileFound nothingOnDisk (4, snd (exampleFile 1)),
          ScannerFileFound nothingOnDisk (exampleFile 2)] newSyncController))
       = [1, 2]"
    by code_simp
  from queue_has_no_duplicates [where config = exampleConfig and unsafe = reservedCharacter
      and events = "[]" and found = "(4, snd (exampleFile 1))"
      and s = "syncRun exampleConfig reservedCharacter
         [ScannerFileFound nothingOnDisk (exampleFile 1)] newSyncController"
      and existsSync = nothingOnDisk] h q
  show ?thesis by simp
qed

text \<open>
  C5, as amended. After \<^verbatim>\<open>cancel()\<close>, a size-resolution step in flight observes the
  cancelled flag before it reports anything and short-circuits with the error
  \<^verbatim>\<open>"Scan cancelled"\<close> instead of completing normally: whatever the listing client
  answers, the only call made is the completion call with that error (and the results
  array, its slot for the file in flight left \<^verbatim>\<open>undefined\<close>), and it goes to the
  no-op. Whatever happens to the session afterwards, nothing more reaches the callbacks
  supplied at construction: no further file-found event, and no completion call either,
  since \<^verbatim>\<open>cancel()\<close> has replaced both callbacks by no-ops.
\<close>

theorem cancel_short_circuits_and_silences:
  assumes "pending s = LsRequest f rest results" and "ftp s \<noteq> None"
  shows "calls (fst (step (LsReply err data) (fst (cancel s))))
           = calls s @ [ScanCompleteCall Noop (Some ScanCancelled) (Some (results @ [None]))]
         \<and> heard (run events (fst (cancel s))) = heard s"
proof -
  from assms have "calls (fst (step (LsReply err data) (fst (cancel s))))
      = calls s @ [ScanCompleteCall Noop (Some ScanCancelled) (Some (results @ [None]))]"
    by (auto simp: cancel_def finish_def Let_def lsCallback_def scanComplete_def
             split: option.splits)
  moreover have "heard (run events (fst (cancel s))) = heard s"
    using run_quiet [OF cancel_quiet(1), of events s] by (simp add: cancel_quiet(2))
  ultimately show ?thesis by simp
qed

text \<open>The session of \<open>cancelScenario\<close> with the third resolution in flight.\<close>

theorem cancel_short_circuits_and_silences_witness:
  "pending (run (take 4 cancelScenario) newFtpScanner)
     = LsRequest (linkFile ''c'' 3) [linkFile ''d'' 2, linkFile ''e'' 1]
         [Some ((linkFile ''a'' 5)\<lparr> targetData := Some (targetEntry ''a'') \<rparr>),
          Some ((linkFile ''b'' 4)\<lparr> targetData := Some (targetEntry ''b'') \<rparr>)]
   \<and> ftp (run (take 4 cancelScenario) newFtpScanner) \<noteq> None
   \<and> calls (fst (step (LsReply None [targetEntry ''c''])
                (fst (cancel (run (take 4 cancelScenario) newFtpScanner)))))
       = calls (run (take 4 cancelScenario) newFtpScanner)
         @ [ScanCompleteCall Noop (Some ScanCancelled)
              (Some [Some ((linkFile ''a'' 5)\<lparr> targetData := Some (targetEntry ''a'') \<rparr>),
                     Some ((linkFile ''b'' 4)\<lparr> targetData := Some (targetEntry ''b'') \<rparr>),
                     None])]
   \<and> heard (run [LsReply None [targetEntry ''c''], WatchdogFires]
              (fst (cancel (run (take 4 cancelScenario) newFtpScanner))))
       = heard (run (take 4 cancelScenario) newFtpScanner)"
proof -
  have p: "pending (run (take 4 cancelScenario) newFtpScanner)
     = LsRequest (linkFile ''c'' 3) [linkFile ''d'' 2, linkFile ''e'' 1]
         [Some ((linkFile ''a'' 5)\<lparr> targetData := Some (targetEntry ''a'') \<rparr>),
          Some ((linkFile ''b'' 4)\<lparr> targetData := Some (targetEntry ''b'') \<rparr>)]"
    by code_simp
  have c: "ftp (run (take 4 cancelScenario) newFtpScanner) \<noteq> None"
    by code_simp
  from cancel_short_circuits_and_silences [OF p c,
      of None "[targetEntry ''c'']" "[LsReply None [targetEntry ''c''], WatchdogFires]"]
    p c
  show ?thesis by simp
qed

text \<open>
  The claim as stated fails on \<open>cancelScenario\<close>: two of the five files have been
  reported when the scan is cancelled, and the completion callback supplied at
  construction is then invoked zero times, not once.
\<close>

theorem cancel_completion_not_delivered:
  "length (filesDelivered (run (take 4 cancelScenario) newFtpScanner)) = 2
   \<and> length (filesDelivered (run cancelScenario newFtpScanner)) = 2
   \<and> length (completionsDelivered (run cancelScenario newFtpScanner)) \<noteq> 1"
  by code_simp

text \<open>
  C6. \<^verbatim>\<open>startScan()\<close> on a session whose \<^verbatim>\<open>scanning\<close> flag is set throws
  \<^verbatim>\<open>"startScan called while scanning"\<close> at once and leaves the session as it was: no
  second scan is started (no timer armed, no connection opened, no request issued), and
  the request is neither ignored silently nor queued.
\<close>

theorem startScan_while_scanning_throws:
  assumes "scanning s"
  shows "startScan syncFolder s = (s, Some StartScanWhileScanning)
         \<and> step (StartScan syncFolder) s = (s, Some StartScanWhileScanning)"
  using assms by (simp add: startScan_def)

theorem startScan_while_scanning_throws_witness:
  "scanning (run [StartScan ''/sync''] newFtpScanner)
   \<and> step (StartScan ''/other'') (run [StartScan ''/sync''] newFtpScanner)
       = (run [StartScan ''/sync''] newFtpScanner, Some StartScanWhileScanning)"
proof -
  have h: "scanning (run [StartScan ''/sync''] newFtpScanner)"
    by code_simp
  from startScan_while_scanning_throws [OF h, of "''/other''"] h
  show ?thesis by blast
qed

text \<open>
  C7. While a symlink is being resolved and the scan has not been cancelled, an answer
  of the single-item listing request that carries an error, or a number of results other
  than one, ends the size-resolution step: \<^verbatim>\<open>scanComplete\<close> is entered with the error
  \<^verbatim>\<open>"Error getting data for " + file.fullPath\<close> as the scan's error (and the results
  array, its slot for the failing file left \<^verbatim>\<open>undefined\<close>), the session is torn down,
  no file is reported, and no request is issued for the remaining entries.
\<close>

theorem malformed_resolution_ends_the_scan:
  assumes "pending s = LsRequest f rest results" and "\<not> cancelled s" and "ftp s \<noteq> None"
    and "err \<noteq> None \<or> length data \<noteq> 1"
  shows "step (LsReply err data) s
           = scanComplete (Some (ErrorGettingData (fullPath f))) (Some (results @ [None]))
               (s\<lparr> pending := NoRequest \<rparr>)
         \<and> snd (step (LsReply err data) s) = None
         \<and> calls (fst (step (LsReply err data) s))
             = calls s @ [ScanCompleteCall Noop (Some (ErrorGettingData (fullPath f)))
                            (Some (results @ [None]))]
         \<and> pending (fst (step (LsReply err data) s)) = NoRequest
         \<and> \<not> scanning (fst (step (LsReply err data) s))"
  using assms
  by (auto simp: lsCallback_def scanComplete_def finish_def Let_def split: option.splits)

theorem malformed_resolution_ends_the_scan_witness:
  "pending resolvingFirst
     = LsRequest (linkFile ''a'' 5)
         [linkFile ''b'' 4, linkFile ''c'' 3, linkFile ''d'' 2, linkFile ''e'' 1] []
   \<and> \<not> cancelled resolvingFirst \<and> ftp resolvingFirst \<noteq> None
   \<and> calls (fst (step (LsReply None []) resolvingFirst))
       = calls resolvingFirst
         @ [ScanCompleteCall Noop (Some (ErrorGettingData (fullPath (linkFile ''a'' 5))))
              (Some [None])]
   \<and> pending (fst (step (LsReply None []) resolvingFirst)) = NoRequest"
proof -
  have p: "pending resolvingFirst
     = LsRequest (linkFile ''a'' 5)
         [linkFile ''b'' 4, linkFile ''c'' 3, linkFile ''d'' 2, linkFile ''e'' 1] []"
    by code_simp
  have c: "\<not> cancelled resolvingFirst" by code_simp
  have f: "ftp resolvingFirst \<noteq> None" by code_simp
  have e: "(None :: int option) \<noteq> None \<or> length ([] :: RemoteEntry list) \<noteq> 1" by simp
  from malformed_resolution_ends_the_scan [OF p c f e]
  have k: "calls (fst (step (LsReply None []) resolvingFirst))
       = calls resolvingFirst
         @ [ScanCompleteCall Noop (Some (ErrorGettingData (fullPath (linkFile ''a'' 5))))
              (Some ([] @ [None]))]"
    and n: "pending (fst (step (LsReply None []) resolvingFirst)) = NoRequest"
    by blast+
  from k have "calls (fst (step (LsReply None []) resolvingFirst))
       = calls resolvingFirst
         @ [ScanCompleteCall Noop (Some (ErrorGettingData (fullPath (linkFile ''a'' 5))))
              (Some [None])]"
    by (simp only: append_Nil)
  with p c f n show ?thesis by blast
qed



text \<open>
  C9. For every nested listing and every positive depth budget, flattening returns a
  list (never \<^verbatim>\<open>undefined\<close>, and it has no way to fail), and the list holds exactly the
  symlinks and files of the directories at nesting levels below the budget, in listing
  order: nothing from a directory deeper than the budget is in it, and truncation only
  leaves entries out.
\<close>

theorem flattening_respects_depth_budget:
  assumes "0 < depth"
  shows "processFilesJSON data base depth relativePath []
           = (Some (withinBudget depth (listingWithLevels data base relativePath 0)),
              withinBudget depth (listingWithLevels data base relativePath 0))"
proof -
  from assms have "processFiles_loop data base depth (appendSlash relativePath) []
      = [] @ withinBudget (int 0 + depth)
               (listingWithLevels_loop data base (appendSlash relativePath) 0)"
    by (rule flatten_levels(2))
  with assms show ?thesis by (simp add: Let_def)
qed

theorem flattening_respects_depth_budget_witness:
  "(0 :: int) < 2
   \<and> map snd (listingWithLevels nestedListing ''/sync'' [] 0) = [0, 1, 2]
   \<and> map (\<lambda>f. relativeDirectory f @ name f)
        (the (fst (processFilesJSON nestedListing ''/sync'' 2 [] [])))
       = [''/a'', ''/d/b'']"
proof -
  have h: "(0 :: int) < 2" by simp
  have l: "map snd (listingWithLevels nestedListing ''/sync'' [] 0) = [0, 1, 2]"
    by code_simp
  have w: "map (\<lambda>f. relativeDirectory f @ name f)
             (withinBudget 2 (listingWithLevels nestedListing ''/sync'' [] 0))
           = [''/a'', ''/d/b'']"
    by code_simp
  from flattening_respects_depth_budget [OF h, of nestedListing "''/sync''" "[]"] h l w
  show ?thesis by simp
qed

text \<open>
  C10. The watchdog callback does nothing on a session that is no longer scanning or
  has been cancelled: it changes no field and calls no callback. When the timer fires
  on such a session the only change is that this timer is spent.
\<close>

theorem watchdog_is_noop_after_teardown:
  assumes "\<not> scanning s \<or> cancelled s"
  shows "timeoutCancelCallback s = (s, None)
         \<and> fst (step WatchdogFires s) = s\<lparr> timeout := timeout s - 1 \<rparr>
         \<and> calls (fst (step WatchdogFires s)) = calls s"
  using assms by (auto simp: timeoutCancelCallback_def)

theorem watchdog_is_noop_after_teardown_witness:
  "\<not> scanning (run emptyScan newFtpScanner)
   \<and> timeout (run emptyScan newFtpScanner) = 1
   \<and> timeoutCancelCallback (run emptyScan newFtpScanner) = (run emptyScan newFtpScanner, None)
   \<and> calls (fst (step WatchdogFires (run emptyScan newFtpScanner)))
       = calls (run emptyScan newFtpScanner)"
proof -
  have h: "\<not> scanning (run emptyScan newFtpScanner)" by code_simp
  then have h': "\<not> scanning (run emptyScan newFtpScanner) \<or> cancelled (run emptyScan newFtpScanner)"
    by simp
  have t: "timeout (run emptyScan newFtpScanner) = 1" by code_simp
  from watchdog_is_noop_after_teardown [OF h'] h t
  show ?thesis by blast
qed

end
